theory Spec2Isabelle
  imports Main "HOL-Library.AList" "HOL-Library.Sublist"
begin

section \<open>Python values, exceptions and the observable world\<close>

text \<open>
  The module \<^verbatim>\<open>obspy/core/util/decorator.py\<close> wraps calls. Two wrappers are embedded here:
  \<^verbatim>\<open>uncompress_file\<close>, which sniffs an archive, replays every extracted payload through the
  wrapped reader on a temporary file and adds the results up, and \<^verbatim>\<open>deprecated_keywords\<close>,
  which renames deprecated keyword arguments before the wrapped call.
\<close>

type_synonym bytes = string

text \<open>Values that travel in \<^verbatim>\<open>*args\<close> and \<^verbatim>\<open>**kwargs\<close>.\<close>

datatype pyval = PNone | PBool bool | PInt int | PStr string

text \<open>Python truthiness, as tested by \<^verbatim>\<open>not x\<close>.\<close>

fun truthy :: "pyval \<Rightarrow> bool" where
  "truthy PNone = False"
| "truthy (PBool b) = b"
| "truthy (PInt i) = (i \<noteq> 0)"
| "truthy (PStr s) = (s \<noteq> [])"

text \<open>
  The first argument \<^verbatim>\<open>filename\<close>: a \<^verbatim>\<open>str\<close>, a \<^verbatim>\<open>pathlib.Path\<close> (path-like, but not a
  \<^verbatim>\<open>str\<close>), or an already open file object.
\<close>

datatype farg = FStr string | FPath string | FHandle nat

fun isinstance_str :: "farg \<Rightarrow> bool" where
  "isinstance_str (FStr p) = True"
| "isinstance_str (FPath p) = False"
| "isinstance_str (FHandle h) = False"


datatype exn = IOError string | Exception string | Raised string

text \<open>What a reader returns: \<^verbatim>\<open>None\<close> or some other object.\<close>

datatype 'r pyresult = PyNone | PyObj 'r

type_synonym kwargs = "(string \<times> pyval) list"

datatype event =
    Probe string
  | TmpCreate string
  | TmpWrite string bytes
  | Call farg "pyval list" kwargs
  | TmpDelete string

record 's world =
  live :: "(string \<times> bytes) list"
  next_tmp :: nat
  trace :: "event list"
  rstate :: 's

text \<open>
  The wrapped reader \<^verbatim>\<open>func\<close>: it may read the temporary files that are live when it is
  called, carries a state of its own, and returns a value or raises.
\<close>

type_synonym ('s, 'r) reader =
  "(string \<times> bytes) list \<Rightarrow> 's \<Rightarrow> farg \<Rightarrow> pyval list \<Rightarrow> kwargs \<Rightarrow> (exn + 'r pyresult) \<times> 's"

text \<open>
  The in-place addition \<^verbatim>\<open>result += stream\<close> on two Python values; it may raise, as it does
  for most types when one side is \<^verbatim>\<open>None\<close>.
\<close>

type_synonym 'r combine = "'r pyresult \<Rightarrow> 'r pyresult \<Rightarrow> exn + 'r pyresult"

definition call_func ::
  "('s, 'r) reader \<Rightarrow> farg \<Rightarrow> pyval list \<Rightarrow> kwargs \<Rightarrow> 's world \<Rightarrow> (exn + 'r pyresult) \<times> 's world" where
  "call_func func filename args kw w =
     (case func (live w) (rstate w) filename args kw of
        (out, s') \<Rightarrow> (out, w\<lparr>trace := trace w @ [Call filename args kw], rstate := s'\<rparr>))"

section \<open>Temporary files\<close>

text \<open>
  Modelled from the spec: \<^verbatim>\<open>NamedTemporaryFile\<close> of \<^verbatim>\<open>obspy.core.util.base\<close> is not part of
  the sources at hand. The spec's TempResource is a transient on-disk file with a fresh name per
  acquisition, holding one payload's bytes, deleted unconditionally when the invocation it
  serves returns or raises. Entering the context creates the empty file, leaving it deletes it.
\<close>

definition tmp_name :: "nat \<Rightarrow> string" where
  "tmp_name n = ''/tmp/obspy-'' @ replicate n (CHR ''t'')"

definition tmp_enter :: "'s world \<Rightarrow> string \<times> 's world" where
  "tmp_enter w =
     (let name = tmp_name (next_tmp w)
      in (name, w\<lparr>live := AList.update name [] (live w),
                   next_tmp := Suc (next_tmp w),
                   trace := trace w @ [TmpCreate name]\<rparr>))"

definition tmp_write :: "string \<Rightarrow> bytes \<Rightarrow> 's world \<Rightarrow> 's world" where
  "tmp_write name obj w =
     w\<lparr>live := AList.update name
                 ((case map_of (live w) name of None \<Rightarrow> [] | Some old \<Rightarrow> old) @ obj) (live w),
       trace := trace w @ [TmpWrite name obj]\<rparr>"

definition tmp_exit :: "string \<Rightarrow> 's world \<Rightarrow> 's world" where
  "tmp_exit name w =
     w\<lparr>live := AList.delete name (live w), trace := trace w @ [TmpDelete name]\<rparr>"

section \<open>What the archive libraries report about a file\<close>

text \<open>
  One step of iterating a tar stream opened with \<^verbatim>\<open>tarfile.open(filename, 'r|*')\<close>: the next
  member, with \<^verbatim>\<open>tarinfo.isfile()\<close> and the outcome of \<^verbatim>\<open>tar.extractfile(tarinfo).read()\<close>,
  or an exception raised by opening or advancing the stream.
\<close>

datatype tar_step = Member bool "exn + bytes" | Broken exn

record zip_obs =
  zip_comment :: bytes
  zip_namelist :: "string list"
  zip_read :: "string \<Rightarrow> exn + bytes"

text \<open>
  What the libraries answer for a path. \<^verbatim>\<open>Path(filename).exists()\<close> answers true for the empty
  string, which \<^verbatim>\<open>pathlib\<close> reads as the current directory, and raises \<^verbatim>\<open>OSError\<close> for a name
  that is too long. \<^verbatim>\<open>tarfile.is_tarfile\<close> and \<^verbatim>\<open>zipfile.is_zipfile\<close> open the file and raise
  what opening or reading raises unless the library catches it: \<^verbatim>\<open>ValueError\<close> for the empty
  name, \<^verbatim>\<open>EOFError\<close> for a truncated gzip stream. The field \<open>names_file\<close> tells whether the
  string is the name of an existing file; the wrapper never sees it, only these answers.
\<close>

record file_obs =
  names_file :: bool
  path_exists :: "exn + bool"
  is_tarfile :: "exn + bool"
  tar_stream :: "tar_step list"
  is_zipfile :: "exn + bool"
  zip_open :: "exn + zip_obs"
  bz2_decompress :: "exn + bytes"
  gzip_read :: "exn + bytes"

type_synonym filesystem = "string \<Rightarrow> file_obs"

section \<open>uncompress_file\<close>

text \<open>The byte string \<^verbatim>\<open>b'obspy_no_uncompress'\<close>.\<close>

definition no_uncompress_tag :: bytes where
  "no_uncompress_tag = ''obspy_no_uncompress''"

text \<open>\<^verbatim>\<open>needle in hay\<close> on byte strings: \<^verbatim>\<open>needle\<close> occurs as a contiguous block.\<close>

fun bytes_in :: "bytes \<Rightarrow> bytes \<Rightarrow> bool" where
  "bytes_in needle [] = (needle = [])"
| "bytes_in needle (c # cs) = (prefix needle (c # cs) \<or> bytes_in needle cs)"

definition endswith :: "string \<Rightarrow> string \<Rightarrow> bool" where
  "endswith s suf = prefix (rev suf) (rev s)"

text \<open>
  The loop over the tar members. \<^verbatim>\<open>obj_list\<close> is appended to inside the \<^verbatim>\<open>try\<close> block, so
  when an exception ends the loop, what was appended before stays.
\<close>

fun tar_collect :: "tar_step list \<Rightarrow> bytes list \<Rightarrow> bytes list" where
  "tar_collect [] obj_list = obj_list"
| "tar_collect (Broken e # rest) obj_list = obj_list"
| "tar_collect (Member isfile rd # rest) obj_list =
     (if \<not> isfile then tar_collect rest obj_list
      else case rd of
             Inl e \<Rightarrow> obj_list
           | Inr data \<Rightarrow>
               if data = [] then tar_collect rest obj_list
               else tar_collect rest (obj_list @ [data]))"

text \<open>The list comprehension \<^verbatim>\<open>[zip.read(name) for name in zip.namelist()]\<close>.\<close>

fun zip_read_all :: "(string \<Rightarrow> exn + bytes) \<Rightarrow> string list \<Rightarrow> exn + bytes list" where
  "zip_read_all rd [] = Inr []"
| "zip_read_all rd (name # names) =
     (case rd name of
        Inl e \<Rightarrow> Inl e
      | Inr data \<Rightarrow>
          (case zip_read_all rd names of
             Inl e \<Rightarrow> Inl e
           | Inr datas \<Rightarrow> Inr (data # datas)))"

text \<open>
  The \<^verbatim>\<open>if/elif\<close> chain that fills \<^verbatim>\<open>obj_list\<close>. The result \<open>None\<close> is Python's
  \<^verbatim>\<open>obj_list = None\<close> of the zip branch; every \<^verbatim>\<open>except Exception: pass\<close> leaves
  \<^verbatim>\<open>obj_list\<close> as it was at the time of the exception. The tests \<^verbatim>\<open>tarfile.is_tarfile\<close> and
  \<^verbatim>\<open>zipfile.is_zipfile\<close> are the conditions of the chain, outside every \<^verbatim>\<open>try\<close>: what they
  raise leaves the wrapper.
\<close>

definition sniff :: "file_obs \<Rightarrow> string \<Rightarrow> exn + bytes list option" where
  "sniff f filename =
     (case is_tarfile f of
        Inl e \<Rightarrow> Inl e
      | Inr is_tar \<Rightarrow>
          if is_tar then Inr (Some (tar_collect (tar_stream f) []))
          else
            (case is_zipfile f of
               Inl e \<Rightarrow> Inl e
             | Inr is_zip \<Rightarrow>
                 if is_zip then
                   Inr (case zip_open f of
                          Inl e \<Rightarrow> Some []
                        | Inr z \<Rightarrow>
                            if bytes_in no_uncompress_tag (zip_comment z) then None
                            else (case zip_read_all (zip_read z) (zip_namelist z) of
                                    Inl e \<Rightarrow> Some []
                                  | Inr datas \<Rightarrow> Some datas))
                 else if endswith filename ''.bz2'' then
                   Inr (case bz2_decompress f of Inl e \<Rightarrow> Some [] | Inr data \<Rightarrow> Some [data])
                 else if endswith filename ''.gz'' then
                   Inr (case gzip_read f of Inl e \<Rightarrow> Some [] | Inr data \<Rightarrow> Some [data])
                 else Inr (Some [])))"

text \<open>
  The loop \<^verbatim>\<open>for obj in obj_list\<close>, with \<^verbatim>\<open>result\<close> as accumulator. The \<^verbatim>\<open>with\<close> block
  leaves the temporary file on every way out: after the addition, and when the reader or the
  addition raises.
\<close>

fun write_results ::
  "('s, 'r) reader \<Rightarrow> 'r combine \<Rightarrow> pyval list \<Rightarrow> kwargs \<Rightarrow> bytes list \<Rightarrow> 'r pyresult \<Rightarrow> 's world
     \<Rightarrow> (exn + 'r pyresult) \<times> 's world" where
  "write_results func iadd args kw [] result w = (Inr result, w)"
| "write_results func iadd args kw (obj # rest) result w =
     (case tmp_enter w of
        (name, w1) \<Rightarrow>
          (case call_func func (FStr name) args kw (tmp_write name obj w1) of
             (Inl e, w3) \<Rightarrow> (Inl e, tmp_exit name w3)
           | (Inr stream, w3) \<Rightarrow>
               (case result of
                  PyNone \<Rightarrow> write_results func iadd args kw rest stream (tmp_exit name w3)
                | PyObj r \<Rightarrow>
                    (case iadd (PyObj r) stream of
                       Inl e \<Rightarrow> (Inl e, tmp_exit name w3)
                     | Inr result' \<Rightarrow>
                         write_results func iadd args kw rest result' (tmp_exit name w3)))))"

definition not_found_msg :: "string \<Rightarrow> string" where
  "not_found_msg filename = ''File not found '' @ [CHR 0x27] @ filename @ [CHR 0x27]"

text \<open>\<^verbatim>\<open>kwargs.pop('check_compression', True)\<close>: the value, and the dictionary without the key.\<close>

definition pop_check_compression :: "kwargs \<Rightarrow> pyval \<times> kwargs" where
  "pop_check_compression kw =
     (case map_of kw ''check_compression'' of
        None \<Rightarrow> (PBool True, kw)
      | Some v \<Rightarrow> (v, AList.delete ''check_compression'' kw))"

definition uncompress_file ::
  "filesystem \<Rightarrow> ('s, 'r) reader \<Rightarrow> 'r combine \<Rightarrow> farg \<Rightarrow> pyval list \<Rightarrow> kwargs \<Rightarrow> 's world
     \<Rightarrow> (exn + 'r pyresult) \<times> 's world" where
  "uncompress_file fs func iadd filename args kwargs w =
     (case pop_check_compression kwargs of
        (cc, kw) \<Rightarrow>
          if \<not> truthy cc then call_func func filename args kw w
          else
            (case filename of
               FStr p \<Rightarrow>
                 (case path_exists (fs p) of
                    Inl e \<Rightarrow> (Inl e, w)
                  | Inr found \<Rightarrow>
                      if \<not> found then (Inl (IOError (not_found_msg p)), w)
                      else
                        (let w0 = w\<lparr>trace := trace w @ [Probe p]\<rparr>
                         in case sniff (fs p) p of
                              Inl e \<Rightarrow> (Inl e, w0)
                            | Inr None \<Rightarrow> call_func func filename args kw w0
                            | Inr (Some []) \<Rightarrow> call_func func filename args kw w0
                            | Inr (Some (obj # rest)) \<Rightarrow>
                                write_results func iadd args kw (obj # rest) PyNone w0))
             | FPath p \<Rightarrow> call_func func filename args kw w
             | FHandle h \<Rightarrow> call_func func filename args kw w))"

section \<open>deprecated_keywords\<close>

text \<open>
  The decorator argument \<^verbatim>\<open>keywords\<close>: a dictionary from old keyword names to new ones, with
  \<^verbatim>\<open>None\<close> for a keyword that has no replacement, in insertion order.
\<close>

type_synonym keyword_map = "(string \<times> string option) list"

text \<open>\<^verbatim>\<open>dict.fromkeys(keys, value)\<close>.\<close>

definition fromkeys :: "'k list \<Rightarrow> 'v \<Rightarrow> ('k \<times> 'v) list" where
  "fromkeys ks v = fold (\<lambda>k d. AList.update k v d) ks []"

text \<open>
  \<^verbatim>\<open>new_keyword_appearance_counts[new_key]\<close>. Every key looked up is a value of \<^verbatim>\<open>keywords\<close>,
  and the counts were made from these values, so the lookup finds an entry.
\<close>

definition lookup_count :: "(string option \<times> nat) list \<Rightarrow> string option \<Rightarrow> nat" where
  "lookup_count counts k = (case map_of counts k of None \<Rightarrow> 0 | Some c \<Rightarrow> c)"

text \<open>The first loop: count, for each new keyword, the old keywords present in the call.\<close>

fun count_appearances ::
  "keyword_map \<Rightarrow> kwargs \<Rightarrow> (string option \<times> nat) list \<Rightarrow> (string option \<times> nat) list" where
  "count_appearances [] kwargs counts = counts"
| "count_appearances ((key, new_key) # rest) kwargs counts =
     count_appearances rest kwargs
       (if key \<in> set (map fst kwargs)
        then AList.update new_key (lookup_count counts new_key + 1) counts
        else counts)"

text \<open>The second loop: the first new keyword, other than \<^verbatim>\<open>None\<close>, that is counted twice.\<close>

fun find_conflict :: "string option list \<Rightarrow> (string option \<times> nat) list \<Rightarrow> string option" where
  "find_conflict [] counts = None"
| "find_conflict (None # rest) counts = find_conflict rest counts"
| "find_conflict (Some nkey # rest) counts =
     (if lookup_count counts (Some nkey) > 1 then Some nkey else find_conflict rest counts)"

text \<open>\<^verbatim>\<open>", ".join(names)\<close>.\<close>

fun join_comma :: "string list \<Rightarrow> string" where
  "join_comma [] = []"
| "join_comma [x] = x"
| "join_comma (x # y # zs) = x @ '', '' @ join_comma (y # zs)"

text \<open>What \<^verbatim>\<open>%s\<close> prints for a new keyword.\<close>

fun str_of :: "string option \<Rightarrow> string" where
  "str_of None = ''None''"
| "str_of (Some s) = s"

definition msg :: "string \<Rightarrow> string \<Rightarrow> string \<Rightarrow> string" where
  "msg kw fname nkw =
     ''Deprecated keyword '' @ kw @ '' in '' @ fname @ ''() call - please use '' @ nkw
       @ '' instead.''"

definition msg2 :: "string \<Rightarrow> string \<Rightarrow> string" where
  "msg2 kw fname = ''Deprecated keyword '' @ kw @ '' in '' @ fname @ ''() call - ignoring.''"

definition msg3 :: "string \<Rightarrow> string \<Rightarrow> string \<Rightarrow> string" where
  "msg3 conflicting_keys fname new_key =
     ''Conflicting deprecated keywords ('' @ conflicting_keys @ '') in '' @ fname
       @ ''() call - please use new '' @ [CHR 0x27] @ new_key @ [CHR 0x27]
       @ '' keyword instead.''"

text \<open>
  The third loop, over the snapshot \<^verbatim>\<open>list(kwargs)\<close>, with the warnings it emits.
  \<^verbatim>\<open>kwargs[kw]\<close> and \<^verbatim>\<open>del kwargs[kw]\<close> raise \<^verbatim>\<open>KeyError\<close> when the key is gone.
\<close>

fun remap_loop ::
  "keyword_map \<Rightarrow> string \<Rightarrow> string list \<Rightarrow> kwargs \<Rightarrow> string list \<Rightarrow> (exn + kwargs) \<times> string list" where
  "remap_loop keywords fname [] kwargs warns = (Inr kwargs, warns)"
| "remap_loop keywords fname (kw # rest) kwargs warns =
     (case map_of keywords kw of
        None \<Rightarrow> remap_loop keywords fname rest kwargs warns
      | Some None \<Rightarrow>
          (case map_of kwargs kw of
             None \<Rightarrow> (Inl (Raised ''KeyError''), warns @ [msg2 kw fname])
           | Some v \<Rightarrow>
               remap_loop keywords fname rest (AList.delete kw kwargs) (warns @ [msg2 kw fname]))
      | Some (Some nkw) \<Rightarrow>
          (case map_of kwargs kw of
             None \<Rightarrow> (Inl (Raised ''KeyError''), warns @ [msg kw fname nkw])
           | Some v \<Rightarrow>
               remap_loop keywords fname rest (AList.delete kw (AList.update nkw v kwargs))
                 (warns @ [msg kw fname nkw])))"

text \<open>
  The wrapper \<^verbatim>\<open>echo_func\<close>. In the \<^verbatim>\<open>raise\<close>, \<^verbatim>\<open>new_key\<close> is the variable of the first loop,
  which holds the value of the last item of \<^verbatim>\<open>keywords\<close> once that loop is over.
\<close>

definition echo_func ::
  "keyword_map \<Rightarrow> string \<Rightarrow> (pyval list \<Rightarrow> kwargs \<Rightarrow> 'a) \<Rightarrow> pyval list \<Rightarrow> kwargs
     \<Rightarrow> (exn + 'a) \<times> string list" where
  "echo_func keywords fname func args kwargs =
     (let new_keyword_appearance_counts =
            count_appearances keywords kwargs (fromkeys (map snd keywords) 0)
      in case find_conflict (map snd keywords) new_keyword_appearance_counts of
           Some nkey \<Rightarrow>
             (let conflicting_keys =
                    join_comma (map fst (filter (\<lambda>(old_key, new_key). new_key = Some nkey) keywords));
                  new_key = snd (last keywords)
              in (Inl (Exception (msg3 conflicting_keys fname (str_of new_key))), []))
         | None \<Rightarrow>
             (case remap_loop keywords fname (map fst kwargs) kwargs [] of
                (Inl e, warns) \<Rightarrow> (Inl e, warns)
              | (Inr kwargs', warns) \<Rightarrow> (Inr (func args kwargs'), warns)))"

section \<open>Reading the trace\<close>

text \<open>What a call added to the trace of the world it started in.\<close>

definition new_events :: "'s world \<Rightarrow> 's world \<Rightarrow> event list" where
  "new_events w w' = drop (length (trace w)) (trace w')"

fun is_call :: "event \<Rightarrow> bool" where
  "is_call (Call f a k) = True"
| "is_call e = False"

text \<open>The names of the temporary files a trace creates, and of those it deletes, in order.\<close>

fun created :: "event list \<Rightarrow> string list" where
  "created [] = []"
| "created (TmpCreate n # es) = n # created es"
| "created (e # es) = created es"

fun deleted :: "event list \<Rightarrow> string list" where
  "deleted [] = []"
| "deleted (TmpDelete n # es) = n # deleted es"
| "deleted (e # es) = deleted es"

abbreviation probed :: "string \<Rightarrow> 's world \<Rightarrow> 's world" where
  "probed p w \<equiv> w\<lparr>trace := trace w @ [Probe p]\<rparr>"

text \<open>The four events of one pass through the loop body, for the temporary file number \<open>i\<close>.\<close>

fun member_events :: "pyval list \<Rightarrow> kwargs \<Rightarrow> nat \<times> bytes \<Rightarrow> event list" where
  "member_events args kw (i, obj) =
     [TmpCreate (tmp_name i), TmpWrite (tmp_name i) obj,
      Call (FStr (tmp_name i)) args kw, TmpDelete (tmp_name i)]"

section \<open>The words of the specification\<close>

text \<open>
  The per-member results: what the reader answers when it is invoked on each payload in turn,
  each payload in a temporary file of its own.
\<close>

fun per_member ::
  "('s, 'r) reader \<Rightarrow> pyval list \<Rightarrow> kwargs \<Rightarrow> bytes list \<Rightarrow> 's world \<Rightarrow> (exn + 'r pyresult) list" where
  "per_member func args kw [] w = []"
| "per_member func args kw (obj # rest) w =
     (case tmp_enter w of
        (name, w1) \<Rightarrow>
          (case call_func func (FStr name) args kw (tmp_write name obj w1) of
             (out, w3) \<Rightarrow> out # per_member func args kw rest (tmp_exit name w3)))"

text \<open>
  The merge as the specification words it: the first result seeds the aggregate, each
  subsequent result is combined into it, left to right.
\<close>

fun merge_into :: "'r combine \<Rightarrow> 'r pyresult \<Rightarrow> 'r pyresult list \<Rightarrow> exn + 'r pyresult" where
  "merge_into iadd acc [] = Inr acc"
| "merge_into iadd acc (x # xs) =
     (case iadd acc x of Inl e \<Rightarrow> Inl e | Inr acc' \<Rightarrow> merge_into iadd acc' xs)"

fun merge_results :: "'r combine \<Rightarrow> 'r pyresult list \<Rightarrow> exn + 'r pyresult" where
  "merge_results iadd [] = Inr PyNone"
| "merge_results iadd (x # xs) = merge_into iadd x xs"

text \<open>
  The addition neither raises nor yields \<^verbatim>\<open>None\<close> at any step of the merge of the results
  \<open>xs\<close> into the aggregate \<open>acc\<close>.
\<close>

fun merge_defined :: "'r combine \<Rightarrow> 'r pyresult \<Rightarrow> 'r pyresult list \<Rightarrow> bool" where
  "merge_defined iadd acc [] = True"
| "merge_defined iadd acc (x # xs) =
     (case iadd acc x of
        Inl e \<Rightarrow> False
      | Inr PyNone \<Rightarrow> False
      | Inr (PyObj c) \<Rightarrow> merge_defined iadd (PyObj c) xs)"

section \<open>Invariant of the renaming loop\<close>

text \<open>The warning that the loop emits for a deprecated keyword.\<close>

definition notice :: "keyword_map \<Rightarrow> string \<Rightarrow> string \<Rightarrow> string" where
  "notice keywords fname kw =
     (case map_of keywords kw of
        Some (Some nkw) \<Rightarrow> msg kw fname nkw
      | _ \<Rightarrow> msg2 kw fname)"

text \<open>
  The state of the third loop after the deprecated keywords in \<open>S\<close> have been handled, against the
  dictionary \<open>m0\<close> the call started with: the value of a renamed keyword sits under its new name,
  the handled keywords are gone, and every other entry is as it was.
\<close>

definition remap_inv ::
  "(string \<rightharpoonup> string option) \<Rightarrow> (string \<rightharpoonup> pyval) \<Rightarrow> string set \<Rightarrow> (string \<rightharpoonup> pyval) \<Rightarrow> bool" where
  "remap_inv T m0 S m \<longleftrightarrow>
     (\<forall>k\<in>S. \<forall>n. T k = Some (Some n) \<longrightarrow> m n = m0 k)
     \<and> (\<forall>x\<in>S. m x = None)
     \<and> (\<forall>x. x \<notin> S \<and> (\<forall>k\<in>S. T k \<noteq> Some (Some x)) \<longrightarrow> m x = m0 x)"

text \<open>The deprecated keywords that the call passes.\<close>

definition present_deprecated :: "keyword_map \<Rightarrow> kwargs \<Rightarrow> string set" where
  "present_deprecated keywords kwargs = {k. k \<in> set (map fst kwargs) \<and> map_of keywords k \<noteq> None}"

section \<open>Example inputs\<close>

text \<open>An existing file that is no archive, and a name under which there is nothing.\<close>

definition plain_file :: file_obs where
  "plain_file = \<lparr>names_file = True, path_exists = Inr True,
                 is_tarfile = Inr False, tar_stream = [], is_zipfile = Inr False,
                 zip_open = Inl (Raised ''BadZipFile''),
                 bz2_decompress = Inl (Raised ''OSError''),
                 gzip_read = Inl (Raised ''BadGzipFile'')\<rparr>"

definition missing_file :: file_obs where
  "missing_file = plain_file\<lparr>names_file := False, path_exists := Inr False\<rparr>"

text \<open>A zip archive whose only member is empty, and one that carries the opt-out tag.\<close>

definition empty_member_zip :: zip_obs where
  "empty_member_zip = \<lparr>zip_comment = [], zip_namelist = [''empty.dat''],
                        zip_read = (\<lambda>name. Inr [])\<rparr>"

definition tagged_zip :: zip_obs where
  "tagged_zip = \<lparr>zip_comment = ''obspy_no_uncompress'', zip_namelist = [''a.dat''],
                  zip_read = (\<lambda>name. Inr ''abc'')\<rparr>"

text \<open>
  A name of 256 characters, longer than a file name may be: there is no such file, and
  \<^verbatim>\<open>Path(filename).exists()\<close> raises.
\<close>

definition long_name :: string where
  "long_name = replicate 256 (CHR ''a'')"

text \<open>
  The files of the examples. The empty string names no file, yet the existence test answers
  true and \<^verbatim>\<open>tarfile.is_tarfile\<close> raises on it. \<^verbatim>\<open>cut.gz\<close> is a gzip file cut short, on which
  \<^verbatim>\<open>tarfile.is_tarfile\<close> raises; \<^verbatim>\<open>both.zip\<close> is a tar archive with a zip archive appended,
  tagged, which both tests accept.
\<close>

definition example_fs :: filesystem where
  "example_fs p =
     (if p = long_name then
        plain_file\<lparr>names_file := False, path_exists := Inl (Raised ''OSError'')\<rparr>
      else if p = [] then
        plain_file\<lparr>names_file := False, is_tarfile := Inl (Raised ''ValueError'')\<rparr>
      else if p = ''two.tar'' then
        plain_file\<lparr>is_tarfile := Inr True,
                tar_stream := [Member True (Inr ''abc''), Member True (Inr ''de'')]\<rparr>
      else if p = ''none.tar'' then
        plain_file\<lparr>is_tarfile := Inr True,
                tar_stream := [Member True (Inr ''none''), Member True (Inr ''abc'')]\<rparr>
      else if p = ''bad.tar'' then
        plain_file\<lparr>is_tarfile := Inr True,
                tar_stream := [Member True (Inr ''bad''), Member True (Inr ''abc'')]\<rparr>
      else if p = ''mid.tar'' then
        plain_file\<lparr>is_tarfile := Inr True,
                tar_stream := [Member True (Inr ''abc''), Member True (Inr ''bad''),
                               Member True (Inr ''de'')]\<rparr>
      else if p = ''cut.tar'' then
        plain_file\<lparr>is_tarfile := Inr True,
                tar_stream := [Member True (Inr ''abc''), Broken (Raised ''ReadError'')]\<rparr>
      else if p = ''cut.gz'' then
        plain_file\<lparr>is_tarfile := Inl (Raised ''EOFError'')\<rparr>
      else if p = ''both.zip'' then
        plain_file\<lparr>is_tarfile := Inr True, tar_stream := [Member True (Inr ''abc'')],
                is_zipfile := Inr True, zip_open := Inr tagged_zip\<rparr>
      else if p = ''data.zip'' then
        plain_file\<lparr>is_zipfile := Inr True, zip_open := Inr empty_member_zip\<rparr>
      else if p = ''plugin.zip'' then
        plain_file\<lparr>is_zipfile := Inr True, zip_open := Inr tagged_zip\<rparr>
      else if p = ''x.gz'' then plain_file\<lparr>gzip_read := Inr ''abc''\<rparr>
      else missing_file)"

text \<open>
  A reader that answers the length of the temporary file it is given, \<^verbatim>\<open>None\<close> for the
  content \<^verbatim>\<open>none\<close>, and raises for the content \<^verbatim>\<open>bad\<close>.
\<close>

definition example_reader :: "(unit, nat) reader" where
  "example_reader lv s f args kw =
     (case f of
        FStr n \<Rightarrow>
          (case map_of lv n of
             Some data \<Rightarrow>
               if data = ''none'' then Inr PyNone
               else if data = ''bad'' then Inl (Raised ''ValueError'')
               else Inr (PyObj (length data))
           | None \<Rightarrow> Inr (PyObj 0))
      | FPath p \<Rightarrow> Inr (PyObj 0)
      | FHandle h \<Rightarrow> Inr (PyObj 0), s)"

text \<open>Addition of numbers; \<^verbatim>\<open>None\<close> on either side is a \<^verbatim>\<open>TypeError\<close>.\<close>

fun example_iadd :: "nat combine" where
  "example_iadd (PyObj x) (PyObj y) = Inr (PyObj (x + y))"
| "example_iadd a b = Inl (Raised ''TypeError'')"

text \<open>A wrapped function that hands back the keyword arguments it received.\<close>

definition return_kwargs :: "pyval list \<Rightarrow> kwargs \<Rightarrow> kwargs" where
  "return_kwargs args kw = kw"

definition example_world :: "unit world" where
  "example_world = \<lparr>live = [], next_tmp = 0, trace = [], rstate = ()\<rparr>"

section \<open>Lemmas on the trace and the temporary files\<close>

lemma short_is_not_long_name:
  "length p < 256 \<Longrightarrow> p \<noteq> long_name" "length p < 256 \<Longrightarrow> long_name \<noteq> p"
  by (auto simp: long_name_def)

lemmas example_defs = short_is_not_long_name example_fs_def example_reader_def example_world_def
  plain_file_def missing_file_def empty_member_zip_def tagged_zip_def
  uncompress_file_def pop_check_compression_def sniff_def call_func_def
  tmp_enter_def tmp_write_def tmp_exit_def tmp_name_def endswith_def no_uncompress_tag_def
  not_found_msg_def new_events_def Let_def

lemma created_append: "created (xs @ ys) = created xs @ created ys"
  by (induction xs rule: created.induct) simp_all

lemma deleted_append: "deleted (xs @ ys) = deleted xs @ deleted ys"
  by (induction xs rule: deleted.induct) simp_all

lemma call_func_world:
  "call_func func filename args kw w = (out, w') \<Longrightarrow>
     live w' = live w \<and> next_tmp w' = next_tmp w \<and> trace w' = trace w @ [Call filename args kw]"
  by (auto simp: call_func_def split: prod.splits)

lemma call_func_fst:
  "fst (call_func func filename args kw w) = fst (func (live w) (rstate w) filename args kw)"
  by (simp add: call_func_def split: prod.splits)

lemma keys_update: "fst ` set (AList.update k v al) = insert k (fst ` set al)"
  by (induction al) auto

lemma keys_delete: "fst ` set (AList.delete k al) = fst ` set al - {k}"
  by (induction al) auto

lemma write_results_world:
  "write_results func iadd args kw objs result w = (out, w') \<Longrightarrow>
     \<exists>evs. trace w' = trace w @ evs
         \<and> fst ` set (live w') = fst ` set (live w) - set (created evs)
         \<and> deleted evs = created evs
         \<and> (\<forall>f a k. Call f a k \<in> set evs \<longrightarrow> a = args \<and> k = kw)
         \<and> (\<forall>p. Probe p \<notin> set evs)"
proof (induction objs arbitrary: result w out w')
  case Nil
  then show ?case by simp
next
  case (Cons obj rest)
  obtain name w1 where e: "tmp_enter w = (name, w1)" by (cases "tmp_enter w")
  obtain o3 w3 where c: "call_func func (FStr name) args kw (tmp_write name obj w1) = (o3, w3)"
    by (cases "call_func func (FStr name) args kw (tmp_write name obj w1)")
  let ?one = "[TmpCreate name, TmpWrite name obj, Call (FStr name) args kw, TmpDelete name]"
  let ?w4 = "tmp_exit name w3"
  from e have w1: "live w1 = AList.update name [] (live w)" "trace w1 = trace w @ [TmpCreate name]"
    by (auto simp: tmp_enter_def Let_def)
  from call_func_world[OF c] w1
  have w4: "trace ?w4 = trace w @ ?one" "fst ` set (live ?w4) = fst ` set (live w) - {name}"
    by (auto simp: tmp_exit_def tmp_write_def keys_update keys_delete)
  have base: "\<exists>evs. trace ?w4 = trace w @ evs
         \<and> fst ` set (live ?w4) = fst ` set (live w) - set (created evs)
         \<and> deleted evs = created evs
         \<and> (\<forall>f a k. Call f a k \<in> set evs \<longrightarrow> a = args \<and> k = kw)
         \<and> (\<forall>p. Probe p \<notin> set evs)"
    using w4 by (intro exI[of _ ?one]) simp
  have step: "\<exists>evs. trace w' = trace w @ evs
         \<and> fst ` set (live w') = fst ` set (live w) - set (created evs)
         \<and> deleted evs = created evs
         \<and> (\<forall>f a k. Call f a k \<in> set evs \<longrightarrow> a = args \<and> k = kw)
         \<and> (\<forall>p. Probe p \<notin> set evs)"
    if r: "write_results func iadd args kw rest res ?w4 = (out, w')" for res
  proof -
    from Cons.IH[OF r] obtain evs where evs: "trace w' = trace ?w4 @ evs"
      "fst ` set (live w') = fst ` set (live ?w4) - set (created evs)"
      "deleted evs = created evs"
      "\<forall>f a k. Call f a k \<in> set evs \<longrightarrow> a = args \<and> k = kw"
      "\<forall>p. Probe p \<notin> set evs" by blast
    show ?thesis
      using evs w4 by (intro exI[of _ "?one @ evs"]) (auto simp: created_append deleted_append)
  qed
  from Cons.prems e c show ?case
    using base step by (auto split: sum.splits pyresult.splits)
qed

lemma pop_check_compression_keys:
  "''check_compression'' \<notin> fst ` set (snd (pop_check_compression kwargs))"
  by (auto simp: pop_check_compression_def keys_delete map_of_eq_None_iff split: option.splits)

lemma uncompress_file_bypass:
  "\<not> truthy (fst (pop_check_compression kwargs)) \<Longrightarrow>
   uncompress_file fs func iadd filename args kwargs w =
     call_func func filename args (snd (pop_check_compression kwargs)) w"
  by (cases "pop_check_compression kwargs") (simp add: uncompress_file_def)

lemma uncompress_file_not_str:
  "\<not> isinstance_str filename \<Longrightarrow>
   uncompress_file fs func iadd filename args kwargs w =
     call_func func filename args (snd (pop_check_compression kwargs)) w"
  by (cases "pop_check_compression kwargs"; cases filename) (simp_all add: uncompress_file_def)

lemma uncompress_file_missing:
  "truthy (fst (pop_check_compression kwargs)) \<Longrightarrow> path_exists (fs p) = Inr False \<Longrightarrow>
   uncompress_file fs func iadd (FStr p) args kwargs w = (Inl (IOError (not_found_msg p)), w)"
  by (cases "pop_check_compression kwargs") (simp add: uncompress_file_def)

lemma uncompress_file_exists_raises:
  "truthy (fst (pop_check_compression kwargs)) \<Longrightarrow> path_exists (fs p) = Inl e \<Longrightarrow>
   uncompress_file fs func iadd (FStr p) args kwargs w = (Inl e, w)"
  by (cases "pop_check_compression kwargs") (simp add: uncompress_file_def)

lemma uncompress_file_str:
  "truthy (fst (pop_check_compression kwargs)) \<Longrightarrow> path_exists (fs p) = Inr True \<Longrightarrow>
   uncompress_file fs func iadd (FStr p) args kwargs w =
     (case sniff (fs p) p of
        Inl e \<Rightarrow> (Inl e, probed p w)
      | Inr None \<Rightarrow>
          call_func func (FStr p) args (snd (pop_check_compression kwargs)) (probed p w)
      | Inr (Some []) \<Rightarrow>
          call_func func (FStr p) args (snd (pop_check_compression kwargs)) (probed p w)
      | Inr (Some (obj # rest)) \<Rightarrow>
          write_results func iadd args (snd (pop_check_compression kwargs)) (obj # rest) PyNone
            (probed p w))"
  by (cases "pop_check_compression kwargs")
     (simp add: uncompress_file_def Let_def split: sum.splits option.splits list.splits)

lemma uncompress_file_world:
  assumes "uncompress_file fs func iadd filename args kwargs w = (out, w')"
  shows "\<exists>evs. trace w' = trace w @ evs
         \<and> fst ` set (live w') = fst ` set (live w) - set (created evs)
         \<and> deleted evs = created evs
         \<and> (\<forall>f a k. Call f a k \<in> set evs \<longrightarrow> a = args \<and> k = snd (pop_check_compression kwargs))"
proof -
  let ?kw = "snd (pop_check_compression kwargs)"
  let ?P = "\<lambda>w w'. \<exists>evs. trace w' = trace w @ evs
         \<and> fst ` set (live w') = fst ` set (live w) - set (created evs)
         \<and> deleted evs = created evs
         \<and> (\<forall>f a k. Call f a k \<in> set evs \<longrightarrow> a = args \<and> k = ?kw)"
  have same: "?P w0 w0" for w0
    by (intro exI[of _ "[]"]) simp
  have direct: "?P w0 w'" if "call_func func filename args ?kw w0 = (out, w')" for w0
    using call_func_world[OF that]
    by (intro exI[of _ "[Call filename args ?kw]"]) simp
  have after_probe: "?P w w'" if "?P (probed p w) w'" for p
  proof -
    from that obtain evs where "trace w' = trace (probed p w) @ evs"
      "fst ` set (live w') = fst ` set (live (probed p w)) - set (created evs)"
      "deleted evs = created evs"
      "\<forall>f a k. Call f a k \<in> set evs \<longrightarrow> a = args \<and> k = ?kw" by blast
    then show ?thesis by (intro exI[of _ "Probe p # evs"]) auto
  qed
  show ?thesis
  proof (cases "truthy (fst (pop_check_compression kwargs)) \<and> isinstance_str filename")
    case False
    then have "uncompress_file fs func iadd filename args kwargs w = call_func func filename args ?kw w"
      using uncompress_file_bypass uncompress_file_not_str by blast
    with assms direct show ?thesis by simp
  next
    case True
    then obtain p where p: "filename = FStr p" by (cases filename) auto
    from True have t: "truthy (fst (pop_check_compression kwargs))" by simp
    show ?thesis
    proof (cases "path_exists (fs p)")
      case (Inl e)
      with t p assms have "w' = w" by (simp add: uncompress_file_exists_raises)
      with same show ?thesis by simp
    next
      case (Inr found)
      show ?thesis
      proof (cases found)
        case False
        with Inr t p assms have "w' = w" by (simp add: uncompress_file_missing)
        with same show ?thesis by simp
      next
        case True
        with Inr have ex: "path_exists (fs p) = Inr True" by simp
        from t ex
        have u: "uncompress_file fs func iadd (FStr p) args kwargs w =
          (case sniff (fs p) p of
             Inl e \<Rightarrow> (Inl e, probed p w)
           | Inr None \<Rightarrow> call_func func (FStr p) args ?kw (probed p w)
           | Inr (Some []) \<Rightarrow> call_func func (FStr p) args ?kw (probed p w)
           | Inr (Some (obj # rest)) \<Rightarrow>
               write_results func iadd args ?kw (obj # rest) PyNone (probed p w))"
          by (simp add: uncompress_file_str)
        show ?thesis
        proof (cases "sniff (fs p) p")
          case (Inl e)
          with u assms p have "w' = probed p w" by simp
          with same[of "probed p w"] have "?P (probed p w) w'" by simp
          from after_probe[OF this] show ?thesis .
        next
          case (Inr objs_opt)
          show ?thesis
          proof (cases objs_opt)
            case None
            with Inr u assms p have "call_func func filename args ?kw (probed p w) = (out, w')"
              by simp
            from after_probe[OF direct[OF this]] show ?thesis .
          next
            case (Some objs)
            show ?thesis
            proof (cases objs)
              case Nil
              with Some Inr u assms p
              have "call_func func filename args ?kw (probed p w) = (out, w')" by simp
              from after_probe[OF direct[OF this]] show ?thesis .
            next
              case (Cons obj rest)
              with Some Inr u assms p
              have "write_results func iadd args ?kw objs PyNone (probed p w) = (out, w')" by simp
              from write_results_world[OF this] have "?P (probed p w) w'" by blast
              from after_probe[OF this] show ?thesis .
            qed
          qed
        qed
      qed
    qed
  qed
qed

lemma new_events_append: "trace w' = trace w @ evs \<Longrightarrow> new_events w w' = evs"
  by (simp add: new_events_def)


lemma write_results_append:
  "write_results func iadd args kw (pre @ post) result w =
     (case write_results func iadd args kw pre result w of
        (Inl e, w') \<Rightarrow> (Inl e, w')
      | (Inr acc, w') \<Rightarrow> write_results func iadd args kw post acc w')"
  by (induction pre arbitrary: result w) (auto split: prod.splits sum.splits pyresult.splits)

lemma write_results_raise:
  "fst (call_func func (FStr (fst (tmp_enter w))) args kw
          (tmp_write (fst (tmp_enter w)) obj (snd (tmp_enter w)))) = Inl e \<Longrightarrow>
   fst (write_results func iadd args kw (obj # post) result w) = Inl e"
  by (auto split: prod.splits sum.splits pyresult.splits)

lemma tar_collect_regular:
  "[] \<notin> set objs \<Longrightarrow> tar_collect (map (\<lambda>d. Member True (Inr d)) objs) acc = acc @ objs"
  by (induction objs arbitrary: acc) auto

lemma one_pass_world:
  assumes "tmp_enter w = (name, w1)"
    and "call_func func (FStr name) args kw (tmp_write name obj w1) = (out, w3)"
  shows "trace (tmp_exit name w3) = trace w @ member_events args kw (next_tmp w, obj)"
    and "next_tmp (tmp_exit name w3) = Suc (next_tmp w)"
  using assms call_func_world[OF assms(2)]
  by (auto simp: tmp_enter_def tmp_write_def tmp_exit_def Let_def)

lemma write_results_merge:
  assumes "per_member func args kw objs w = map Inr rs"
    and "merge_defined iadd (PyObj r0) rs"
  shows "fst (write_results func iadd args kw objs (PyObj r0) w) = merge_into iadd (PyObj r0) rs
       \<and> trace (snd (write_results func iadd args kw objs (PyObj r0) w))
           = trace w @ concat (map (member_events args kw)
                                (zip [next_tmp w..<next_tmp w + length objs] objs))"
  using assms
proof (induction objs arbitrary: rs r0 w)
  case Nil
  then show ?case by simp
next
  case (Cons obj rest)
  obtain name w1 where e: "tmp_enter w = (name, w1)" by (cases "tmp_enter w")
  obtain out w3 where c: "call_func func (FStr name) args kw (tmp_write name obj w1) = (out, w3)"
    by (cases "call_func func (FStr name) args kw (tmp_write name obj w1)")
  let ?w4 = "tmp_exit name w3"
  from Cons.prems e c obtain r rs' where rs: "rs = r # rs'" "out = Inr r"
    "per_member func args kw rest ?w4 = map Inr rs'"
    by (cases rs) auto
  from Cons.prems(2) rs(1) obtain c' where c': "iadd (PyObj r0) r = Inr (PyObj c')"
    and tot: "merge_defined iadd (PyObj c') rs'"
    by (auto split: sum.splits pyresult.splits)
  note w4 = one_pass_world[OF e c]
  from Cons.IH[OF rs(3) tot] w4
  have ih: "fst (write_results func iadd args kw rest (PyObj c') ?w4) = merge_into iadd (PyObj c') rs'"
    "trace (snd (write_results func iadd args kw rest (PyObj c') ?w4))
       = trace w @ member_events args kw (next_tmp w, obj)
         @ concat (map (member_events args kw)
                    (zip [Suc (next_tmp w)..<Suc (next_tmp w) + length rest] rest))"
    by simp_all
  have z: "zip [next_tmp w..<next_tmp w + length (obj # rest)] (obj # rest)
         = (next_tmp w, obj) # zip [Suc (next_tmp w)..<Suc (next_tmp w) + length rest] rest"
    by (simp add: upt_conv_Cons del: upt_Suc)
  have run: "write_results func iadd args kw (obj # rest) (PyObj r0) w
           = write_results func iadd args kw rest (PyObj c') ?w4"
    using e c rs c' by simp
  show ?case unfolding run z using ih rs c' by simp
qed

section \<open>Lemmas on the renaming of keywords\<close>

lemma inv_present:
  assumes "remap_inv T m0 S m" "S \<subseteq> D" "kw \<in> D" "kw \<notin> S"
    and "\<forall>k n. k \<in> D \<and> T k = Some (Some n) \<longrightarrow> n \<notin> D"
  shows "m kw = m0 kw"
  using assms unfolding remap_inv_def by blast

lemma inv_drop:
  assumes "remap_inv T m0 S m" "S \<subseteq> D" "kw \<in> D" "kw \<notin> S" "T kw = Some None"
    and "\<forall>k n. k \<in> D \<and> T k = Some (Some n) \<longrightarrow> n \<notin> D"
  shows "remap_inv T m0 (insert kw S) (m(kw := None))"
  unfolding remap_inv_def
proof (intro conjI ballI allI impI)
  fix k n assume "k \<in> insert kw S" "T k = Some (Some n)"
  with assms have "k \<in> S" "n \<noteq> kw" by auto
  with assms(1) \<open>T k = Some (Some n)\<close> show "(m(kw := None)) n = m0 k"
    unfolding remap_inv_def by simp
next
  fix x assume "x \<in> insert kw S"
  with assms(1) show "(m(kw := None)) x = None" unfolding remap_inv_def by auto
next
  fix x assume "x \<notin> insert kw S \<and> (\<forall>k\<in>insert kw S. T k \<noteq> Some (Some x))"
  with assms(1) show "(m(kw := None)) x = m0 x" unfolding remap_inv_def by auto
qed

lemma inv_rename:
  assumes "remap_inv T m0 S m" "S \<subseteq> D" "kw \<in> D" "kw \<notin> S" "T kw = Some (Some n)"
    and "m0 kw = Some v"
    and H: "\<forall>k n. k \<in> D \<and> T k = Some (Some n) \<longrightarrow> n \<notin> D"
    and NC: "\<forall>k1 k2 n. k1 \<in> D \<and> k2 \<in> D \<and> T k1 = Some (Some n) \<and> T k2 = Some (Some n) \<longrightarrow> k1 = k2"
  shows "remap_inv T m0 (insert kw S) ((m(n \<mapsto> v))(kw := None))"
  unfolding remap_inv_def
proof (intro conjI ballI allI impI)
  from assms have nkw: "n \<noteq> kw" by blast
  fix k n' assume k: "k \<in> insert kw S" "T k = Some (Some n')"
  show "((m(n \<mapsto> v))(kw := None)) n' = m0 k"
  proof (cases "k = kw")
    case True
    with k assms(5,6) nkw show ?thesis by simp
  next
    case False
    with k have kS: "k \<in> S" by simp
    with assms(2) have kD: "k \<in> D" by blast
    from H kD k(2) assms(3) have "n' \<noteq> kw" by blast
    moreover from NC kD assms(3,5) k(2) False have "n' \<noteq> n" by blast
    ultimately show ?thesis using assms(1) kS k(2) unfolding remap_inv_def by simp
  qed
next
  fix x assume x: "x \<in> insert kw S"
  show "((m(n \<mapsto> v))(kw := None)) x = None"
  proof (cases "x = kw")
    case True then show ?thesis by simp
  next
    case False
    with x have xS: "x \<in> S" by simp
    with assms(2) have "x \<in> D" by blast
    with H assms(3,5) have "x \<noteq> n" by blast
    with False xS assms(1) show ?thesis unfolding remap_inv_def by simp
  qed
next
  fix x assume x: "x \<notin> insert kw S \<and> (\<forall>k\<in>insert kw S. T k \<noteq> Some (Some x))"
  with assms(5) have "x \<noteq> n" "x \<noteq> kw" by auto
  with x assms(1) show "((m(n \<mapsto> v))(kw := None)) x = m0 x" unfolding remap_inv_def by auto
qed

lemma remap_loop_inv:
  assumes H: "\<forall>k n. k \<in> D \<and> map_of keywords k = Some (Some n) \<longrightarrow> n \<notin> D"
    and NC: "\<forall>k1 k2 n. k1 \<in> D \<and> k2 \<in> D \<and> map_of keywords k1 = Some (Some n)
               \<and> map_of keywords k2 = Some (Some n) \<longrightarrow> k1 = k2"
    and D: "D = {k. k \<in> dom m0 \<and> map_of keywords k \<noteq> None}"
  shows "remap_inv (map_of keywords) m0 S (map_of cur) \<Longrightarrow> S \<subseteq> D \<Longrightarrow> distinct ks \<Longrightarrow>
         set ks \<subseteq> dom m0 \<Longrightarrow> set ks \<inter> S = {} \<Longrightarrow>
         \<exists>cur'. remap_loop keywords fname ks cur warns
                  = (Inr cur', warns @ map (notice keywords fname)
                                         (filter (\<lambda>k. map_of keywords k \<noteq> None) ks))
               \<and> remap_inv (map_of keywords) m0 (S \<union> {k \<in> set ks. map_of keywords k \<noteq> None})
                    (map_of cur')"
proof (induction ks arbitrary: S cur warns)
  case Nil
  then show ?case by simp
next
  case (Cons kw rest)
  from Cons.prems have rest: "distinct rest" "set rest \<subseteq> dom m0" "kw \<notin> set rest" "kw \<notin> S"
    "kw \<in> dom m0" by auto
  show ?case
  proof (cases "map_of keywords kw")
    case None
    from Cons.IH[OF Cons.prems(1,2) rest(1,2), of warns] Cons.prems(5)
    obtain cur' where c: "remap_loop keywords fname rest cur warns
        = (Inr cur', warns @ map (notice keywords fname) (filter (\<lambda>k. map_of keywords k \<noteq> None) rest))"
      "remap_inv (map_of keywords) m0 (S \<union> {k \<in> set rest. map_of keywords k \<noteq> None}) (map_of cur')"
      by auto
    have "S \<union> {k \<in> set (kw # rest). map_of keywords k \<noteq> None}
        = S \<union> {k \<in> set rest. map_of keywords k \<noteq> None}" using None by auto
    with c None show ?thesis by simp
  next
    case (Some t)
    with rest D have kwD: "kw \<in> D" by simp
    from rest obtain v where v0: "m0 kw = Some v" by blast
    from inv_present[OF Cons.prems(1,2) kwD rest(4) H] v0
    have v: "map_of cur kw = Some v" by simp
    have S': "insert kw S \<subseteq> D" using Cons.prems(2) kwD by simp
    have dis: "set rest \<inter> insert kw S = {}" using Cons.prems(5) rest(3) by auto
    have eq: "insert kw S \<union> {k \<in> set rest. map_of keywords k \<noteq> None}
        = S \<union> {k \<in> set (kw # rest). map_of keywords k \<noteq> None}" using Some by auto
    show ?thesis
    proof (cases t)
      case None
      with Some have T: "map_of keywords kw = Some None" by simp
      from inv_drop[OF Cons.prems(1,2) kwD rest(4) T H]
      have inv: "remap_inv (map_of keywords) m0 (insert kw S) (map_of (AList.delete kw cur))"
        by (simp add: delete_conv')
      from Cons.IH[OF inv S' rest(1,2) dis, of "warns @ [msg2 kw fname]"]
      show ?thesis using T v eq by (simp add: notice_def)
    next
      case (Some n)
      with \<open>map_of keywords kw = Some t\<close> have T: "map_of keywords kw = Some (Some n)" by simp
      from inv_rename[OF Cons.prems(1,2) kwD rest(4) T v0 H NC]
      have inv: "remap_inv (map_of keywords) m0 (insert kw S)
                   (map_of (AList.delete kw (AList.update n v cur)))"
        by (simp add: delete_conv' update_conv')
      from Cons.IH[OF inv S' rest(1,2) dis, of "warns @ [msg kw fname n]"]
      show ?thesis using T v eq by (simp add: notice_def)
    qed
  qed
qed

lemma lookup_count_update:
  "lookup_count (AList.update k v al) k' = (if k' = k then v else lookup_count al k')"
  by (simp add: lookup_count_def update_conv')

lemma lookup_count_appearances:
  "lookup_count (count_appearances kws kwargs counts) nk
     = lookup_count counts nk
       + length (filter (\<lambda>(k, n). n = nk \<and> k \<in> set (map fst kwargs)) kws)"
  by (induction kws kwargs counts rule: count_appearances.induct)
     (auto simp: lookup_count_update)

lemma lookup_count_fold_zero:
  "lookup_count (fold (\<lambda>k d. AList.update k 0 d) ks d0) k
     = (if k \<in> set ks then 0 else lookup_count d0 k)"
  by (induction ks arbitrary: d0) (auto simp: lookup_count_update)

lemma lookup_count_fromkeys: "lookup_count (fromkeys ks 0) k = 0"
  by (simp add: fromkeys_def lookup_count_fold_zero) (simp add: lookup_count_def)

lemma find_conflict_None:
  "(\<forall>k. Some k \<in> set vs \<longrightarrow> lookup_count counts (Some k) \<le> 1) \<Longrightarrow> find_conflict vs counts = None"
  by (induction vs counts rule: find_conflict.induct) auto

lemma filter_at_most_one:
  "distinct (map fst xs) \<Longrightarrow>
   (\<forall>a b. a \<in> set xs \<and> b \<in> set xs \<and> P a \<and> P b \<longrightarrow> fst a = fst b) \<Longrightarrow>
   length (filter P xs) \<le> 1"
proof (induction xs)
  case Nil
  then show ?case by simp
next
  case (Cons x xs)
  show ?case
  proof (cases "P x")
    case False
    with Cons show ?thesis by auto
  next
    case True
    have "filter P xs = []"
    proof (rule ccontr)
      assume "filter P xs \<noteq> []"
      then obtain y where y: "y \<in> set xs" "P y"
        by (metis filter_False)
      from Cons.prems(2)[rule_format, of x y] True y have "fst x = fst y" by simp
      with y(1) Cons.prems(1) show False by force
    qed
    with True show ?thesis by simp
  qed
qed

lemma no_conflict_found:
  assumes "distinct (map fst keywords)"
    and NC: "\<forall>k1 k2 n. k1 \<in> present_deprecated keywords kwargs
               \<and> k2 \<in> present_deprecated keywords kwargs
               \<and> map_of keywords k1 = Some (Some n) \<and> map_of keywords k2 = Some (Some n)
               \<longrightarrow> k1 = k2"
  shows "find_conflict (map snd keywords)
           (count_appearances keywords kwargs (fromkeys (map snd keywords) 0)) = None"
proof (rule find_conflict_None, intro allI impI)
  fix n assume "Some n \<in> set (map snd keywords)"
  let ?P = "\<lambda>(k, n'). n' = Some n \<and> k \<in> set (map fst kwargs)"
  have "length (filter ?P keywords) \<le> 1"
  proof (rule filter_at_most_one[OF assms(1)], intro allI impI)
    fix a b assume ab: "a \<in> set keywords \<and> b \<in> set keywords \<and> ?P a \<and> ?P b"
    obtain k1 n1 k2 n2 where p: "a = (k1, n1)" "b = (k2, n2)" by (cases a, cases b) auto
    with ab assms(1) have m: "map_of keywords k1 = Some (Some n)" "map_of keywords k2 = Some (Some n)"
      "k1 \<in> set (map fst kwargs)" "k2 \<in> set (map fst kwargs)"
      by auto
    then have "k1 \<in> present_deprecated keywords kwargs" "k2 \<in> present_deprecated keywords kwargs"
      by (simp_all add: present_deprecated_def)
    with NC m p show "fst a = fst b" by auto
  qed
  then show "lookup_count (count_appearances keywords kwargs (fromkeys (map snd keywords) 0))
               (Some n) \<le> 1"
    by (simp add: lookup_count_appearances lookup_count_fromkeys)
qed

section \<open>The dispatcher: payloads and merge\<close>

text \<open>
  Claim C1 says that every payload handed to the reader is non-empty, and in particular that no
  empty member of a zip archive without the opt-out tag reaches the reader. The tar branch skips
  members without data, the zip branch takes every member as it is: for the archive
  \<^verbatim>\<open>data.zip\<close>, whose only member is empty, \<open>sniff\<close> yields one empty payload, and the reader
  is invoked on a temporary file into which no byte was written.
\<close>

theorem zip_empty_member_reaches_reader:
  "sniff (example_fs ''data.zip'') ''data.zip'' = Inr (Some ([] # []))
   \<and> uncompress_file example_fs example_reader example_iadd (FStr ''data.zip'') [] [] example_world
     = (Inr (PyObj 0),
        \<lparr>live = [], next_tmp = 1,
         trace = [Probe ''data.zip'', TmpCreate (tmp_name 0), TmpWrite (tmp_name 0) [],
                  Call (FStr (tmp_name 0)) [] [], TmpDelete (tmp_name 0)],
         rstate = ()\<rparr>)"
  by (simp add: example_defs)

text \<open>
  Claim C2 says that for a tar archive of \<open>N\<close> non-empty regular members every reader is invoked
  \<open>N\<close> times and the result is the left fold of the \<open>N\<close> results, whatever the reader returns.
  It fails twice. For \<^verbatim>\<open>none.tar\<close> the reader answers \<^verbatim>\<open>None\<close> on the first member and 3 on the
  second: the fold seeded with the first result is a \<^verbatim>\<open>TypeError\<close>, the wrapper returns 3, since
  \<^verbatim>\<open>result is None\<close> lets the second result seed the aggregate. For \<^verbatim>\<open>bad.tar\<close> the reader
  raises on the first of two members and is invoked once.
\<close>

theorem first_none_result_does_not_seed:
  "tar_stream (example_fs ''none.tar'') = [Member True (Inr ''none''), Member True (Inr ''abc'')]
   \<and> per_member example_reader [] [] [''none'', ''abc''] (probed ''none.tar'' example_world)
       = [Inr PyNone, Inr (PyObj 3)]
   \<and> merge_results example_iadd [PyNone, PyObj 3] = Inl (Raised ''TypeError'')
   \<and> fst (uncompress_file example_fs example_reader example_iadd (FStr ''none.tar'') [] []
            example_world) = Inr (PyObj 3)
   \<and> tar_stream (example_fs ''bad.tar'') = [Member True (Inr ''bad''), Member True (Inr ''abc'')]
   \<and> length (filter is_call (new_events example_world (snd (uncompress_file example_fs
        example_reader example_iadd (FStr ''bad.tar'') [] [] example_world)))) = 1"
  by (simp add: example_defs)

text \<open>
  Claim C2, amended: for a tar archive of \<open>N \<ge> 1\<close> non-empty regular members and no others, a
  reader that raises on none of the \<open>N\<close> payloads and whose first result is not \<^verbatim>\<open>None\<close>, and
  an addition that neither raises nor yields \<^verbatim>\<open>None\<close> when these results are merged, the
  wrapper invokes the reader exactly \<open>N\<close> times, once per member in member order, each time on a
  fresh temporary file holding that member's bytes, and returns the left fold of the \<open>N\<close>
  results.
\<close>

theorem tar_members_read_in_order_and_merged:
  assumes "path_exists (fs p) = Inr True" and "truthy (fst (pop_check_compression kwargs))"
    and "is_tarfile (fs p) = Inr True"
    and "tar_stream (fs p) = map (\<lambda>d. Member True (Inr d)) objs"
    and "objs \<noteq> []" and "[] \<notin> set objs"
    and "per_member func args (snd (pop_check_compression kwargs)) objs (probed p w) = map Inr rs"
    and "hd rs \<noteq> PyNone"
    and "merge_defined iadd (hd rs) (tl rs)"
  shows "fst (uncompress_file fs func iadd (FStr p) args kwargs w) = merge_results iadd rs
       \<and> new_events w (snd (uncompress_file fs func iadd (FStr p) args kwargs w))
           = Probe p # concat (map (member_events args (snd (pop_check_compression kwargs)))
                                (zip [next_tmp w..<next_tmp w + length objs] objs))
       \<and> length (filter is_call
                   (new_events w (snd (uncompress_file fs func iadd (FStr p) args kwargs w))))
           = length objs"
proof -
  let ?kw = "snd (pop_check_compression kwargs)"
  let ?w0 = "probed p w"
  from assms(5) obtain obj rest where objs: "objs = obj # rest" by (cases objs) auto
  from assms(3,4,6) have "sniff (fs p) p = Inr (Some objs)"
    by (simp add: sniff_def tar_collect_regular)
  with assms(1,2) objs
  have run: "uncompress_file fs func iadd (FStr p) args kwargs w
           = write_results func iadd args ?kw (obj # rest) PyNone ?w0"
    by (simp add: uncompress_file_str)
  obtain name w1 where e: "tmp_enter ?w0 = (name, w1)" by (cases "tmp_enter ?w0")
  obtain out w3 where c: "call_func func (FStr name) args ?kw (tmp_write name obj w1) = (out, w3)"
    by (cases "call_func func (FStr name) args ?kw (tmp_write name obj w1)")
  let ?w4 = "tmp_exit name w3"
  from assms(7) objs e c obtain r rs' where rs: "rs = r # rs'" "out = Inr r"
    "per_member func args ?kw rest ?w4 = map Inr rs'"
    by (cases rs) auto
  from rs(1) assms(8) obtain r1 where r1: "r = PyObj r1" by (cases r) auto
  note w4 = one_pass_world[OF e c]
  have step: "write_results func iadd args ?kw (obj # rest) PyNone ?w0
            = write_results func iadd args ?kw rest (PyObj r1) ?w4"
    using e c rs r1 by simp
  from assms(9) rs(1) r1 have tot: "merge_defined iadd (PyObj r1) rs'" by simp
  from write_results_merge[OF rs(3) tot] w4
  have m: "fst (write_results func iadd args ?kw rest (PyObj r1) ?w4) = merge_into iadd (PyObj r1) rs'"
    "trace (snd (write_results func iadd args ?kw rest (PyObj r1) ?w4))
       = trace w @ Probe p # member_events args ?kw (next_tmp w, obj)
         @ concat (map (member_events args ?kw)
                    (zip [Suc (next_tmp w)..<Suc (next_tmp w) + length rest] rest))"
    by simp_all
  have z: "zip [next_tmp w..<next_tmp w + length (obj # rest)] (obj # rest)
         = (next_tmp w, obj) # zip [Suc (next_tmp w)..<Suc (next_tmp w) + length rest] rest"
    by (simp add: upt_conv_Cons del: upt_Suc)
  have tr: "new_events w (snd (uncompress_file fs func iadd (FStr p) args kwargs w))
           = Probe p # concat (map (member_events args ?kw)
                                (zip [next_tmp w..<next_tmp w + length objs] objs))"
    unfolding run step objs z using m(2) by (simp add: new_events_def)
  have cnt: "length (filter is_call (concat (map (member_events args ?kw) (zip ns xs))))
           = length xs" if "length ns = length xs" for ns :: "nat list" and xs :: "bytes list"
    using that by (induction ns xs rule: list_induct2) auto
  have res: "fst (uncompress_file fs func iadd (FStr p) args kwargs w) = merge_results iadd rs"
    unfolding run step using m(1) rs r1 by simp
  from res tr cnt[of "[next_tmp w..<next_tmp w + length objs]" objs] show ?thesis by simp
qed

theorem tar_members_read_in_order_and_merged_witness:
  "fst (uncompress_file example_fs example_reader example_iadd (FStr ''two.tar'') [] []
          example_world) = merge_results example_iadd [PyObj 3, PyObj 2]
   \<and> merge_results example_iadd [PyObj 3, PyObj 2] = Inr (PyObj 5)
   \<and> new_events example_world (snd (uncompress_file example_fs example_reader example_iadd
        (FStr ''two.tar'') [] [] example_world))
      = Probe ''two.tar'' # concat (map (member_events [] (snd (pop_check_compression [])))
                                     (zip [0..<0 + length [''abc'', ''de'']] [''abc'', ''de'']))
   \<and> length (filter is_call (new_events example_world (snd (uncompress_file example_fs
        example_reader example_iadd (FStr ''two.tar'') [] [] example_world)))) = 2"
proof -
  have f: "example_fs ''two.tar'' = plain_file\<lparr>is_tarfile := Inr True,
                tar_stream := [Member True (Inr ''abc''), Member True (Inr ''de'')]\<rparr>"
    by (simp add: example_fs_def short_is_not_long_name)
  have h1: "path_exists (example_fs ''two.tar'') = Inr True" by (simp add: f plain_file_def)
  have h2: "truthy (fst (pop_check_compression []))" by (simp add: pop_check_compression_def)
  have h3: "is_tarfile (example_fs ''two.tar'') = Inr True" by (simp add: f)
  have h4: "tar_stream (example_fs ''two.tar'') = map (\<lambda>d. Member True (Inr d)) [''abc'', ''de'']"
    by (simp add: f)
  have h5: "[''abc'', ''de''] \<noteq> []" by simp
  have h6: "[] \<notin> set [''abc'', ''de'']" by simp
  have h7: "per_member example_reader [] (snd (pop_check_compression [])) [''abc'', ''de'']
              (probed ''two.tar'' example_world) = map Inr [PyObj 3, PyObj 2]"
    by (simp add: example_defs)
  have h8: "hd [PyObj (3::nat), PyObj 2] \<noteq> PyNone" by simp
  have h9: "merge_defined example_iadd (hd [PyObj 3, PyObj 2]) (tl [PyObj 3, PyObj 2])"
    by simp
  have m: "merge_results example_iadd [PyObj 3, PyObj 2] = Inr (PyObj 5)" by simp
  have n: "next_tmp example_world = 0" by (simp add: example_world_def)
  from tar_members_read_in_order_and_merged[where fs = example_fs and func = example_reader
      and iadd = example_iadd and args = "[]" and w = example_world,
      OF h1 h2 h3 h4 h5 h6 h7 h8 h9] m n
  show ?thesis by simp
qed

section \<open>The dispatcher: temporary files\<close>

text \<open>
  Claim C3: every temporary file is deleted before the wrapper returns or an error reaches the
  caller. On every way out, the files deleted are the files created, in the same order, and none
  of them is live in the final world. When the payloads before the \<open>k\<close>-th went through and the
  reader raises \<open>e\<close> on the \<open>k\<close>-th, the wrapper raises exactly \<open>e\<close>.
\<close>

theorem temporary_files_deleted_on_every_exit:
  "deleted (new_events w (snd (uncompress_file fs func iadd filename args kwargs w)))
     = created (new_events w (snd (uncompress_file fs func iadd filename args kwargs w)))
   \<and> set (created (new_events w (snd (uncompress_file fs func iadd filename args kwargs w))))
       \<inter> fst ` set (live (snd (uncompress_file fs func iadd filename args kwargs w))) = {}
   \<and> (filename = FStr p \<and> truthy (fst (pop_check_compression kwargs))
        \<and> path_exists (fs p) = Inr True
        \<and> sniff (fs p) p = Inr (Some (pre @ obj # post))
        \<and> write_results func iadd args (snd (pop_check_compression kwargs)) pre PyNone (probed p w)
            = (Inr acc, wk)
        \<and> fst (call_func func (FStr (fst (tmp_enter wk))) args (snd (pop_check_compression kwargs))
                 (tmp_write (fst (tmp_enter wk)) obj (snd (tmp_enter wk)))) = Inl e
      \<longrightarrow> fst (uncompress_file fs func iadd filename args kwargs w) = Inl e)"
proof -
  let ?kw = "snd (pop_check_compression kwargs)"
  obtain out w' where r: "uncompress_file fs func iadd filename args kwargs w = (out, w')"
    by (cases "uncompress_file fs func iadd filename args kwargs w")
  from uncompress_file_world[OF r] obtain evs where
    evs: "trace w' = trace w @ evs"
      "fst ` set (live w') = fst ` set (live w) - set (created evs)"
      "deleted evs = created evs"
    by blast
  from evs(1) have ne: "new_events w w' = evs" by (rule new_events_append)
  have general: "deleted (new_events w w') = created (new_events w w')
     \<and> set (created (new_events w w')) \<inter> fst ` set (live w') = {}"
    using evs ne by auto
  have raise: "out = Inl e"
    if h: "filename = FStr p" "truthy (fst (pop_check_compression kwargs))"
      "path_exists (fs p) = Inr True"
      "sniff (fs p) p = Inr (Some (pre @ obj # post))"
      "write_results func iadd args ?kw pre PyNone (probed p w) = (Inr acc, wk)"
      "fst (call_func func (FStr (fst (tmp_enter wk))) args ?kw
             (tmp_write (fst (tmp_enter wk)) obj (snd (tmp_enter wk)))) = Inl e"
  proof -
    from h(2,3,4) have "uncompress_file fs func iadd (FStr p) args kwargs w
        = write_results func iadd args ?kw (pre @ obj # post) PyNone (probed p w)"
      by (cases "pre @ obj # post") (simp_all add: uncompress_file_str)
    also have "\<dots> = write_results func iadd args ?kw (obj # post) acc wk"
      using h(5) by (simp add: write_results_append)
    finally have "fst (uncompress_file fs func iadd (FStr p) args kwargs w) = Inl e"
      using write_results_raise[OF h(6)] by simp
    with r h(1) show ?thesis by simp
  qed
  show ?thesis unfolding r fst_conv snd_conv using general raise by blast
qed

theorem temporary_files_deleted_on_every_exit_witness:
  "sniff (example_fs ''mid.tar'') ''mid.tar'' = Inr (Some ([''abc''] @ ''bad'' # [''de'']))
   \<and> fst (uncompress_file example_fs example_reader example_iadd (FStr ''mid.tar'') [] []
            example_world) = Inl (Raised ''ValueError'')
   \<and> created (new_events example_world (snd (uncompress_file example_fs example_reader
        example_iadd (FStr ''mid.tar'') [] [] example_world))) = [tmp_name 0, tmp_name 1]
   \<and> deleted (new_events example_world (snd (uncompress_file example_fs example_reader
        example_iadd (FStr ''mid.tar'') [] [] example_world))) = [tmp_name 0, tmp_name 1]
   \<and> live (snd (uncompress_file example_fs example_reader example_iadd (FStr ''mid.tar'') [] []
        example_world)) = []"
proof -
  let ?wk = "\<lparr>live = [], next_tmp = Suc 0,
              trace = [Probe ''mid.tar'', TmpCreate (tmp_name 0), TmpWrite (tmp_name 0) ''abc'',
                       Call (FStr (tmp_name 0)) [] [], TmpDelete (tmp_name 0)],
              rstate = ()\<rparr>"
  have a: "FStr ''mid.tar'' = FStr ''mid.tar''" by simp
  have t: "truthy (fst (pop_check_compression []))" by (simp add: pop_check_compression_def)
  have f: "path_exists (example_fs ''mid.tar'') = Inr True"
    by (simp add: example_fs_def plain_file_def short_is_not_long_name)
  have s: "sniff (example_fs ''mid.tar'') ''mid.tar'' = Inr (Some ([''abc''] @ ''bad'' # [''de'']))"
    by (simp add: example_defs)
  have p: "write_results example_reader example_iadd [] (snd (pop_check_compression [])) [''abc'']
             PyNone (probed ''mid.tar'' example_world) = (Inr (PyObj 3), ?wk)"
    by (simp add: example_defs)
  have c: "fst (call_func example_reader (FStr (fst (tmp_enter ?wk))) []
                  (snd (pop_check_compression []))
                  (tmp_write (fst (tmp_enter ?wk)) ''bad'' (snd (tmp_enter ?wk))))
             = Inl (Raised ''ValueError'')"
    by (simp add: example_defs)
  have shape: "created (new_events example_world (snd (uncompress_file example_fs example_reader
        example_iadd (FStr ''mid.tar'') [] [] example_world))) = [tmp_name 0, tmp_name 1]
     \<and> live (snd (uncompress_file example_fs example_reader example_iadd (FStr ''mid.tar'') [] []
        example_world)) = []"
    by (simp add: example_defs)
  from temporary_files_deleted_on_every_exit[where fs = example_fs and func = example_reader
      and iadd = example_iadd and filename = "FStr ''mid.tar''" and args = "[]" and kwargs = "[]"
      and w = example_world and p = "''mid.tar''"
      and pre = "[''abc'']" and obj = "''bad''" and post = "[''de'']" and acc = "PyObj 3"
      and wk = ?wk and e = "Raised ''ValueError''"]
    a t f s p c shape
  show ?thesis by simp
qed

section \<open>The dispatcher: when sniffing happens\<close>







text \<open>
  Claim C7 says that the error of a failed extraction is always swallowed and the reader invoked
  once on the original path. \<^verbatim>\<open>tarfile.is_tarfile(filename)\<close> is the first condition of the
  chain, outside every \<^verbatim>\<open>try\<close>: for \<^verbatim>\<open>cut.gz\<close>, a gzip file cut short, it raises
  \<^verbatim>\<open>EOFError\<close>, which leaves the wrapper, and the reader is not invoked. Inside the \<^verbatim>\<open>try\<close> of
  the tar branch the members are appended one by one: for \<^verbatim>\<open>cut.tar\<close>, whose stream breaks
  after one member, that member is replayed through a temporary file and the reader never sees
  the original path.
\<close>

theorem truncated_gzip_error_surfaces:
  "names_file (example_fs ''cut.gz'') \<and> path_exists (example_fs ''cut.gz'') = Inr True
   \<and> endswith ''cut.gz'' ''.gz''
   \<and> is_tarfile (example_fs ''cut.gz'') = Inl (Raised ''EOFError'')
   \<and> uncompress_file example_fs example_reader example_iadd (FStr ''cut.gz'') [] [] example_world
       = (Inl (Raised ''EOFError''), probed ''cut.gz'' example_world)
   \<and> filter is_call (new_events example_world (snd (uncompress_file example_fs example_reader
        example_iadd (FStr ''cut.gz'') [] [] example_world))) = []
   \<and> new_events example_world (snd (uncompress_file example_fs example_reader example_iadd
        (FStr ''cut.tar'') [] [] example_world))
     = [Probe ''cut.tar'', TmpCreate (tmp_name 0), TmpWrite (tmp_name 0) ''abc'',
        Call (FStr (tmp_name 0)) [] [], TmpDelete (tmp_name 0)]"
  by (simp add: example_defs)

text \<open>
  Claim C8 says that every string that names no existing file is answered by the not-found error
  before any probing. The test in the code is \<^verbatim>\<open>Path(filename).exists()\<close>. The empty string names
  no file, yet the test answers true, the format is probed and \<^verbatim>\<open>tarfile.is_tarfile\<close> raises
  \<^verbatim>\<open>ValueError\<close>; for a name that is too long the test itself raises \<^verbatim>\<open>OSError\<close>.
\<close>

theorem empty_name_is_probed:
  "\<not> names_file (example_fs []) \<and> truthy (fst (pop_check_compression []))
   \<and> uncompress_file example_fs example_reader example_iadd (FStr []) [] [] example_world
       = (Inl (Raised ''ValueError''), probed [] example_world)
   \<and> \<not> names_file (example_fs long_name)
   \<and> uncompress_file example_fs example_reader example_iadd (FStr long_name) [] [] example_world
       = (Inl (Raised ''OSError''), example_world)"
  by (simp add: example_defs)

text \<open>
  Claim C8, amended: for a string on which \<^verbatim>\<open>Path(filename).exists()\<close> answers false, with
  \<^verbatim>\<open>check_compression\<close> true or absent, the wrapper raises \<^verbatim>\<open>IOError\<close> with the world
  unchanged: nothing was probed and the reader was not invoked.
\<close>

theorem missing_path_raises_not_found:
  assumes "path_exists (fs p) = Inr False" and "truthy (fst (pop_check_compression kwargs))"
  shows "uncompress_file fs func iadd (FStr p) args kwargs w = (Inl (IOError (not_found_msg p)), w)
       \<and> new_events w (snd (uncompress_file fs func iadd (FStr p) args kwargs w)) = []"
  using assms by (simp add: uncompress_file_missing new_events_def)

theorem missing_path_raises_not_found_witness:
  "path_exists (example_fs ''nope'') = Inr False \<and> truthy (fst (pop_check_compression []))
   \<and> uncompress_file example_fs example_reader example_iadd (FStr ''nope'') [] [] example_world
       = (Inl (IOError (not_found_msg ''nope'')), example_world)"
proof -
  have a: "path_exists (example_fs ''nope'') = Inr False"
    by (simp add: example_fs_def missing_file_def plain_file_def short_is_not_long_name)
  have b: "truthy (fst (pop_check_compression []))" by (simp add: pop_check_compression_def)
  from missing_path_raises_not_found[where fs = example_fs and p = "''nope''" and kwargs = "[]",
      OF a b] a b
  show ?thesis by blast
qed

text \<open>
  Claim C10: in every branch the reader is invoked with keyword arguments that do not hold the
  key \<^verbatim>\<open>check_compression\<close>.
\<close>

theorem reader_never_receives_check_compression:
  "\<forall>e \<in> set (new_events w (snd (uncompress_file fs func iadd filename args kwargs w))).
     \<forall>f a k. e = Call f a k \<longrightarrow> ''check_compression'' \<notin> fst ` set k"
proof -
  obtain out w' where r: "uncompress_file fs func iadd filename args kwargs w = (out, w')"
    by (cases "uncompress_file fs func iadd filename args kwargs w")
  from uncompress_file_world[OF r] obtain evs where
    evs: "trace w' = trace w @ evs"
      "\<forall>f a k. Call f a k \<in> set evs \<longrightarrow> a = args \<and> k = snd (pop_check_compression kwargs)"
    by blast
  from evs(1) have "new_events w w' = evs" by (rule new_events_append)
  with r evs(2) show ?thesis using pop_check_compression_keys[of kwargs] by auto
qed

theorem reader_never_receives_check_compression_witness:
  "Call (FStr (tmp_name 0)) [PInt 1] [(''format'', PStr ''MSEED'')]
     \<in> set (new_events example_world (snd (uncompress_file example_fs example_reader example_iadd
          (FStr ''two.tar'') [PInt 1]
          [(''check_compression'', PBool True), (''format'', PStr ''MSEED'')] example_world)))
   \<and> ''check_compression'' \<notin> fst ` set [(''format'', PStr ''MSEED'')]"
proof -
  have mem: "Call (FStr (tmp_name 0)) [PInt 1] [(''format'', PStr ''MSEED'')]
     \<in> set (new_events example_world (snd (uncompress_file example_fs example_reader example_iadd
          (FStr ''two.tar'') [PInt 1]
          [(''check_compression'', PBool True), (''format'', PStr ''MSEED'')] example_world)))"
    by (simp add: example_defs)
  from reader_never_receives_check_compression[rule_format, OF mem refl] mem
  show ?thesis by blast
qed

section \<open>The renaming of deprecated keywords\<close>

text \<open>
  Claim C5 says that the conflict error names the offending old keywords and the new keyword they
  share. The message is formatted with \<^verbatim>\<open>new_key\<close>, the variable of the counting loop, not with
  the keyword found in conflict: with \<^verbatim>\<open>a\<close> and \<^verbatim>\<open>b\<close> both renamed to \<^verbatim>\<open>x\<close> and a last
  entry that renames \<^verbatim>\<open>c\<close> to \<^verbatim>\<open>y\<close>, the error asks for the new keyword \<^verbatim>\<open>y\<close>. The call is
  aborted before any renaming and no warning is emitted.
\<close>

theorem conflict_message_names_last_new_key:
  "echo_func [(''a'', Some ''x''), (''b'', Some ''x''), (''c'', Some ''y'')] ''read''
      return_kwargs [] [(''a'', PInt 1), (''b'', PInt 2)]
     = (Inl (Exception (msg3 ''a, b'' ''read'' ''y'')), [])
   \<and> msg3 ''a, b'' ''read'' ''y'' \<noteq> msg3 ''a, b'' ''read'' ''x''"
  by (simp add: echo_func_def fromkeys_def lookup_count_def Let_def msg3_def)

text \<open>
  Claim C9 says that without a conflict every deprecated keyword present has its value moved to
  its new name. When a new name is itself a deprecated keyword of the call this fails: with
  \<^verbatim>\<open>a\<close> renamed to \<^verbatim>\<open>b\<close> and \<^verbatim>\<open>b\<close> to \<^verbatim>\<open>c\<close>, both passed, the value of \<^verbatim>\<open>a\<close> ends
  under \<^verbatim>\<open>c\<close> and the value of \<^verbatim>\<open>b\<close> is lost.
\<close>

theorem chained_rename_loses_value:
  "find_conflict (map snd [(''a'', Some ''b''), (''b'', Some ''c'')])
     (count_appearances [(''a'', Some ''b''), (''b'', Some ''c'')]
        [(''a'', PInt 1), (''b'', PInt 2)]
        (fromkeys (map snd [(''a'', Some ''b''), (''b'', Some ''c'')]) 0)) = None
   \<and> echo_func [(''a'', Some ''b''), (''b'', Some ''c'')] ''read'' return_kwargs []
        [(''a'', PInt 1), (''b'', PInt 2)]
      = (Inr [(''c'', PInt 1)], [msg ''a'' ''read'' ''b'', msg ''b'' ''read'' ''c''])
   \<and> map_of [(''c'', PInt 1)] ''b'' = None
   \<and> map_of [(''c'', PInt 1)] ''c'' \<noteq> map_of [(''a'', PInt 1), (''b'', PInt 2)] ''b''"
  by (simp add: echo_func_def fromkeys_def lookup_count_def return_kwargs_def Let_def)

text \<open>
  Claim C9, amended: without a conflict, and when no new name of a deprecated keyword passed in
  the call is itself a deprecated keyword passed in the call, the wrapped function receives a
  dictionary in which every deprecated keyword passed is absent, the value of each one that has a
  new name sits under that new name, overwriting what was there, and every key that is neither a
  deprecated keyword passed nor such a new name keeps its value; one warning is emitted per
  deprecated keyword passed, in the order of the call.
\<close>

theorem remap_without_conflict:
  assumes "distinct (map fst keywords)" and "distinct (map fst kwargs)"
    and NC: "\<forall>k1 k2 n. k1 \<in> present_deprecated keywords kwargs
               \<and> k2 \<in> present_deprecated keywords kwargs
               \<and> map_of keywords k1 = Some (Some n) \<and> map_of keywords k2 = Some (Some n)
               \<longrightarrow> k1 = k2"
    and H: "\<forall>k n. k \<in> present_deprecated keywords kwargs \<and> map_of keywords k = Some (Some n)
               \<longrightarrow> n \<notin> present_deprecated keywords kwargs"
  shows "\<exists>kwargs'.
           echo_func keywords fname func args kwargs
             = (Inr (func args kwargs'),
                map (notice keywords fname) (filter (\<lambda>k. map_of keywords k \<noteq> None) (map fst kwargs)))
         \<and> (\<forall>k \<in> present_deprecated keywords kwargs. map_of kwargs' k = None)
         \<and> (\<forall>k \<in> present_deprecated keywords kwargs. \<forall>n.
               map_of keywords k = Some (Some n) \<longrightarrow> map_of kwargs' n = map_of kwargs k)
         \<and> (\<forall>x. x \<notin> present_deprecated keywords kwargs
                 \<and> (\<forall>k \<in> present_deprecated keywords kwargs. map_of keywords k \<noteq> Some (Some x))
               \<longrightarrow> map_of kwargs' x = map_of kwargs x)"
proof -
  let ?D = "present_deprecated keywords kwargs"
  have D: "?D = {k. k \<in> dom (map_of kwargs) \<and> map_of keywords k \<noteq> None}"
    by (auto simp: present_deprecated_def dom_map_of_conv_image_fst)
  have inv0: "remap_inv (map_of keywords) (map_of kwargs) {} (map_of kwargs)"
    by (simp add: remap_inv_def)
  have sub: "set (map fst kwargs) \<subseteq> dom (map_of kwargs)"
    by (simp add: dom_map_of_conv_image_fst)
  from remap_loop_inv[OF H NC D inv0 _ assms(2) sub, of fname "[]"]
  obtain cur' where c: "remap_loop keywords fname (map fst kwargs) kwargs []
        = (Inr cur', map (notice keywords fname)
                       (filter (\<lambda>k. map_of keywords k \<noteq> None) (map fst kwargs)))"
    "remap_inv (map_of keywords) (map_of kwargs)
       {k \<in> set (map fst kwargs). map_of keywords k \<noteq> None} (map_of cur')"
    by auto
  have "{k \<in> set (map fst kwargs). map_of keywords k \<noteq> None} = ?D"
    by (auto simp: present_deprecated_def)
  with c(2) have inv: "remap_inv (map_of keywords) (map_of kwargs) ?D (map_of cur')" by simp
  from no_conflict_found[OF assms(1) NC] c(1)
  have run: "echo_func keywords fname func args kwargs
        = (Inr (func args cur'),
           map (notice keywords fname) (filter (\<lambda>k. map_of keywords k \<noteq> None) (map fst kwargs)))"
    by (simp add: echo_func_def)
  from inv have
    "(\<forall>k \<in> ?D. map_of cur' k = None)"
    "(\<forall>k \<in> ?D. \<forall>n. map_of keywords k = Some (Some n) \<longrightarrow> map_of cur' n = map_of kwargs k)"
    "(\<forall>x. x \<notin> ?D \<and> (\<forall>k \<in> ?D. map_of keywords k \<noteq> Some (Some x))
        \<longrightarrow> map_of cur' x = map_of kwargs x)"
    unfolding remap_inv_def by blast+
  with run show ?thesis by blast
qed

theorem remap_without_conflict_witness:
  "echo_func [(''a'', Some ''x''), (''d'', None)] ''read'' return_kwargs []
      [(''a'', PInt 1), (''x'', PInt 5), (''d'', PInt 5), (''k'', PInt 7)]
     = (Inr [(''x'', PInt 1), (''k'', PInt 7)], [msg ''a'' ''read'' ''x'', msg2 ''d'' ''read''])
   \<and> ''a'' \<in> present_deprecated [(''a'', Some ''x''), (''d'', None)]
               [(''a'', PInt 1), (''x'', PInt 5), (''d'', PInt 5), (''k'', PInt 7)]
   \<and> map_of [(''x'', PInt 1), (''k'', PInt 7)] ''a'' = None
   \<and> map_of [(''x'', PInt 1), (''k'', PInt 7)] ''x''
       = map_of [(''a'', PInt 1), (''x'', PInt 5), (''d'', PInt 5), (''k'', PInt 7)] ''a''"
proof -
  let ?kws = "[(''a'', Some ''x''), (''d'', None)]"
  let ?kw = "[(''a'', PInt 1), (''x'', PInt 5), (''d'', PInt 5), (''k'', PInt 7)]"
  have h1: "distinct (map fst ?kws)" by simp
  have h2: "distinct (map fst ?kw)" by simp
  have pd: "present_deprecated ?kws ?kw = {''a'', ''d''}"
    by (auto simp: present_deprecated_def split: if_splits)
  have NC: "\<forall>k1 k2 n. k1 \<in> present_deprecated ?kws ?kw \<and> k2 \<in> present_deprecated ?kws ?kw
               \<and> map_of ?kws k1 = Some (Some n) \<and> map_of ?kws k2 = Some (Some n) \<longrightarrow> k1 = k2"
    unfolding pd by auto
  have H: "\<forall>k n. k \<in> present_deprecated ?kws ?kw \<and> map_of ?kws k = Some (Some n)
               \<longrightarrow> n \<notin> present_deprecated ?kws ?kw"
    unfolding pd by auto
  have ev: "echo_func ?kws ''read'' return_kwargs [] ?kw
     = (Inr [(''x'', PInt 1), (''k'', PInt 7)], [msg ''a'' ''read'' ''x'', msg2 ''d'' ''read''])"
    by (simp add: echo_func_def fromkeys_def lookup_count_def return_kwargs_def Let_def)
  have a: "''a'' \<in> present_deprecated ?kws ?kw" unfolding pd by simp
  have t: "map_of ?kws ''a'' = Some (Some ''x'')" by simp
  from remap_without_conflict[OF h1 h2 NC H, of "''read''" return_kwargs "[]"]
  obtain kwargs' where r:
    "echo_func ?kws ''read'' return_kwargs [] ?kw
       = (Inr (return_kwargs [] kwargs'),
          map (notice ?kws ''read'') (filter (\<lambda>k. map_of ?kws k \<noteq> None) (map fst ?kw)))"
    "\<forall>k \<in> present_deprecated ?kws ?kw. map_of kwargs' k = None"
    "\<forall>k \<in> present_deprecated ?kws ?kw. \<forall>n.
        map_of ?kws k = Some (Some n) \<longrightarrow> map_of kwargs' n = map_of ?kw k"
    by blast
  from r(1) ev have k: "kwargs' = [(''x'', PInt 1), (''k'', PInt 7)]"
    by (simp add: return_kwargs_def)
  from r(2)[rule_format, OF a] r(3)[rule_format, OF a t] ev a
  show ?thesis unfolding k by blast
qed

end
